theory Spec2Isabelle
  imports Complex_Main "HOL-Library.Sublist"
begin

section \<open>Python strings\<close>

text \<open>
  A Python \<open>str\<close> is modelled as a \<open>string\<close>, one \<open>char\<close> per code point, for the
  code points below 256. On that range \<open>str.isspace\<close> (which decides both \<open>str.strip\<close> and
  the regular expression class \<open>\s\<close>) holds of the twelve code points listed in
  \<open>is_space\<close>, and \<open>str.lower\<close> moves A-Z and the upper-case letters of the Latin-1 block
  (0xC0-0xDE without the multiplication sign 0xD7) up by 32 and leaves every other code
  point alone.
\<close>

definition is_space :: "char \<Rightarrow> bool" where
  "is_space c = (of_char c \<in> {9, 10, 11, 12, 13, 28, 29, 30, 31, 32, 133, 160 :: nat})"

definition lower_char :: "char \<Rightarrow> char" where
  "lower_char c =
     (let n = (of_char c :: nat)
      in if (65 \<le> n \<and> n \<le> 90) \<or> (192 \<le> n \<and> n \<le> 222 \<and> n \<noteq> 215)
         then char_of (n + 32) else c)"

definition lower :: "string \<Rightarrow> string" where
  "lower s = map lower_char s"

text \<open>\<open>k in s\<close> on strings: \<open>k\<close> occurs in \<open>s\<close> as a contiguous run.\<close>

fun py_in :: "string \<Rightarrow> string \<Rightarrow> bool" where
  "py_in k [] = (k = [])"
| "py_in k (c # s) = (prefix k (c # s) \<or> py_in k s)"

definition strip :: "string \<Rightarrow> string" where
  "strip s = rev (dropWhile is_space (rev (dropWhile is_space s)))"

definition endswith :: "string \<Rightarrow> char \<Rightarrow> bool" where
  "endswith s c = (s \<noteq> [] \<and> last s = c)"

definition nl :: string where
  "nl = [CHR 0x0A]"

fun join :: "string \<Rightarrow> string list \<Rightarrow> string" where
  "join sep [] = []"
| "join sep [x] = x"
| "join sep (x # y # ys) = x @ sep @ join sep (y # ys)"

text \<open>
  The slice \<open>xs[:k]\<close> for a Python integer \<open>k\<close>: the first \<open>k\<close> elements when \<open>k\<close> is not
  negative, and all but the last \<open>-k\<close> elements when it is.
\<close>

definition py_take :: "int \<Rightarrow> 'a list \<Rightarrow> 'a list" where
  "py_take k xs = (if 0 \<le> k then take (nat k) xs else take (length xs - nat (- k)) xs)"

section \<open>Exceptions, JSON values and the outside world\<close>

datatype error =
    Raised string
  | AttributeError
  | TypeError
  | ValueError
  | RuntimeError error error
  | HTTPException nat string

datatype json =
    JNull
  | JBool bool
  | JNum real
  | JStr string
  | JArr "json list"
  | JObj "(string \<times> json) list"

text \<open>
  A knowledge hit is the dictionary the document store returns for the projection
  \<open>title, category, url\<close>; a field is \<open>None\<close> when the document has no such key.
\<close>

record hit =
  title :: "string option"
  category :: "string option"
  url :: "string option"

record chat_message =
  role :: string
  content :: string

record chat_request =
  model :: string
  messages :: "chat_message list"
  temperature :: real
  max_tokens :: nat

text \<open>
  Everything the two modules import from outside the repository is a field of the
  environment: the settings object, the environment variable \<open>FOLLOWUP_MODEL_LEGACY\<close>,
  the ranked cursor of the text search over \<open>kb_collection\<close>, the two shapes of the
  OpenAI client (the content of the first choice, or the exception raised),
  \<open>json.loads\<close>, and the two entry points of \<open>rag_pipeline\<close>. The stream of
  \<open>get_answer_stream\<close> is the finite list of chunks it yields, and the exception that
  ends it early if there is one.
\<close>

record env =
  use_llm_followups :: bool
  openai_api_key :: "string option"
  followup_model :: string
  debug_followups :: bool
  followup_model_legacy :: "string option"
  kb_find :: "string \<Rightarrow> hit list"
  openai_v1 :: "chat_request \<Rightarrow> error + string option"
  openai_v0 :: "chat_request \<Rightarrow> error + string option"
  json_loads :: "string \<Rightarrow> error + json"
  get_answer :: "string \<Rightarrow> error + string option"
  get_answer_stream :: "string \<Rightarrow> string list \<times> error option"

section \<open>The follow-up generator (app/services/llm\_followups.py)\<close>

definition ESCALATION_KEYWORDS :: "string list" where
  "ESCALATION_KEYWORDS =
     [''agent'', ''human'', ''person'', ''representative'', ''talk to someone'',
      ''talk to admin'', ''live chat'', ''connect me'', ''escalate'', ''call'', ''phone'',
      ''help desk'', ''support'']"

text \<open>
  \<open>llm_complete\<close>: the current client first; on any exception (a missing content
  included, since \<open>None.strip()\<close> raises inside the \<open>try\<close>) the legacy client with the
  legacy model name; when that fails too, one \<open>RuntimeError\<close> naming both causes.
\<close>

definition llm_complete ::
  "env \<Rightarrow> chat_message list \<Rightarrow> string \<Rightarrow> real \<Rightarrow> nat \<Rightarrow> error + string" where
  "llm_complete e msgs mdl temp maxtok =
     (let v1 = (case openai_v1 e \<lparr>model = mdl, messages = msgs, temperature = temp,
                                   max_tokens = maxtok\<rparr> of
                  Inl err \<Rightarrow> Inl err
                | Inr None \<Rightarrow> Inl AttributeError
                | Inr (Some c) \<Rightarrow> Inr (strip c))
      in case v1 of
           Inr text \<Rightarrow> Inr text
         | Inl v1_err \<Rightarrow>
             (let legacy_model = (case followup_model_legacy e of
                                    None \<Rightarrow> ''gpt-3.5-turbo'' | Some m \<Rightarrow> m);
                  v0 = (case openai_v0 e \<lparr>model = legacy_model, messages = msgs,
                                           temperature = temp, max_tokens = maxtok\<rparr> of
                          Inl err \<Rightarrow> Inl err
                        | Inr None \<Rightarrow> Inl AttributeError
                        | Inr (Some c) \<Rightarrow> Inr (strip c))
              in case v0 of
                   Inr text \<Rightarrow> Inr text
                 | Inl v0_err \<Rightarrow> Inl (RuntimeError v1_err v0_err)))"

definition wants_human :: "string \<Rightarrow> bool" where
  "wants_human text = (let q = lower text in list_ex (\<lambda>k. py_in k q) ESCALATION_KEYWORDS)"

definition mongo_text_search :: "env \<Rightarrow> string \<Rightarrow> nat \<Rightarrow> hit list" where
  "mongo_text_search e query limit =
     (if \<not> (query \<noteq> [] \<and> strip query \<noteq> []) then [] else take limit (kb_find e query))"

definition low_conf :: "string list" where
  "low_conf =
     [''i'm not sure'', ''no information'', ''could not find'', ''not available'',
      ''i don't have'', ''unable to find'']"

definition should_offer_live_chat :: "string \<Rightarrow> string \<Rightarrow> nat \<Rightarrow> bool" where
  "should_offer_live_chat user_q answer_text hits =
     (if wants_human user_q then True
      else (let a = lower answer_text in list_ex (\<lambda>p. py_in p a) low_conf))"

text \<open>
  The match of \<open>re.search(r"\[[\s\S]*\]", s)\<close>: it starts at the first opening bracket
  and, the star being greedy, ends at the last closing bracket after it; there is no
  match when no closing bracket follows the first opening one.
\<close>

definition bracket_span :: "string \<Rightarrow> string option" where
  "bracket_span s =
     (let t = dropWhile (\<lambda>c. c \<noteq> CHR ''['') s
      in if t = [] then None
         else (let r = rev (dropWhile (\<lambda>c. c \<noteq> CHR '']'') (rev (tl t)))
               in if r = [] then None else Some (CHR ''['' # r)))"

fun str_items :: "json list \<Rightarrow> string list" where
  "str_items [] = []"
| "str_items (JStr x # xs) = x # str_items xs"
| "str_items (_ # xs) = str_items xs"

definition safe_json_list :: "env \<Rightarrow> string \<Rightarrow> string list" where
  "safe_json_list e s =
     (if s = [] then []
      else case json_loads e s of
             Inr (JArr data) \<Rightarrow> str_items data
           | _ \<Rightarrow>
               (case bracket_span s of
                  None \<Rightarrow> []
                | Some frag \<Rightarrow>
                    (case json_loads e frag of
                       Inr (JArr data) \<Rightarrow> str_items data
                     | _ \<Rightarrow> [])))"

definition sys_prompt :: string where
  "sys_prompt =
     ''You are a campus assistant crafting follow-up suggestions that feel like the student's next question. '' @
     ''Return ONLY a JSON array of 3-5 strings. Constraints: '' @
     ''1) Each suggestion must be a natural, concise user question (max ~10 words). '' @
     ''2) Avoid vague labels and categories; be specific. '' @
     ''3) No duplicates, no punctuation at the end, no numbering. '' @
     ''4) Suggestions must be answerable by the provided knowledge items when possible.''"

text \<open>One line of context per candidate with a non-blank title.\<close>

fun ctx_lines :: "hit list \<Rightarrow> string list" where
  "ctx_lines [] = []"
| "ctx_lines (c # cs) =
     (let t = strip (case title c of None \<Rightarrow> [] | Some x \<Rightarrow> x);
          u = (case url c of None \<Rightarrow> [] | Some x \<Rightarrow> x);
          cat = (case category c of None \<Rightarrow> [] | Some x \<Rightarrow> x)
      in if t \<noteq> [] then (''- '' @ t @ '' ['' @ cat @ ''] '' @ u) # ctx_lines cs
         else ctx_lines cs)"

definition usr_prompt :: "string \<Rightarrow> string \<Rightarrow> hit list \<Rightarrow> string" where
  "usr_prompt user_q answer_text candidates =
     (let lines = ctx_lines (take 10 candidates);
          ctx = (if lines \<noteq> [] then join nl lines else ''(no candidates)'')
      in ''Student question: '' @ user_q @ nl @ nl @
         ''Assistant answer:'' @ nl @ answer_text @ nl @ nl @
         ''Relevant knowledge items:'' @ nl @ ctx @ nl @ nl @
         ''Produce a JSON array of short follow-up questions likely to be asked next.'')"

text \<open>
  The loop over the parsed items, with its two accumulators. The length test stands
  after the body, so it is also made after an item that was skipped.
\<close>

fun uniq_loop :: "int \<Rightarrow> string list \<Rightarrow> string list \<Rightarrow> string set \<Rightarrow> string list" where
  "uniq_loop k [] uniq seen = uniq"
| "uniq_loop k (it # items) uniq seen =
     (let s0 = strip it;
          s = (if endswith s0 CHR ''?'' then butlast s0 else s0);
          fresh = (s \<noteq> [] \<and> lower s \<notin> seen);
          seen' = (if fresh then insert (lower s) seen else seen);
          uniq' = (if fresh then uniq @ [s] else uniq)
      in if k \<le> int (length uniq') then uniq' else uniq_loop k items uniq' seen')"

definition llm_generate_followups ::
  "env \<Rightarrow> string \<Rightarrow> string \<Rightarrow> hit list \<Rightarrow> int \<Rightarrow> error + string list" where
  "llm_generate_followups e user_q answer_text candidates k =
     (case llm_complete e
             [\<lparr>role = ''system'', content = sys_prompt\<rparr>,
              \<lparr>role = ''user'', content = usr_prompt user_q answer_text candidates\<rparr>]
             (followup_model e) 0.4 180 of
        Inl err \<Rightarrow> Inl err
      | Inr text \<Rightarrow> Inr (uniq_loop k (safe_json_list e text) [] {}))"

datatype payload = Faq string | Action string

record chip =
  label :: string
  payload :: payload

definition generic_suggestions :: "string list" where
  "generic_suggestions =
     [''application deadlines for scholarships'',
      ''GPA needed for freshman admission'',
      ''who is my admissions counselor'',
      ''how to apply for scholarships'']"

text \<open>The titles of the fallback: \<open>h.get("title", "")\<close> of the hits whose title is truthy.\<close>

fun hit_titles :: "hit list \<Rightarrow> string list" where
  "hit_titles [] = []"
| "hit_titles (h # hs) =
     (case title h of
        None \<Rightarrow> hit_titles hs
      | Some t \<Rightarrow> if t \<noteq> [] then t # hit_titles hs else hit_titles hs)"

definition build_llm_style_followups ::
  "env \<Rightarrow> string \<Rightarrow> string \<Rightarrow> int \<Rightarrow> chip list \<times> bool \<times> string" where
  "build_llm_style_followups e user_question answer_text k =
     (let hits0 = mongo_text_search e user_question 8;
          hits = (if hits0 = [] \<and> answer_text \<noteq> []
                  then mongo_text_search e answer_text 8 else hits0);
          (llm_suggestions, source) =
            (if use_llm_followups e \<and>
                (case openai_api_key e of None \<Rightarrow> False | Some key \<Rightarrow> key \<noteq> [])
             then (case llm_generate_followups e user_question answer_text hits k of
                     Inr sugg \<Rightarrow> (sugg, if sugg \<noteq> [] then ''openai'' else ''fallback'')
                   | Inl exc \<Rightarrow> ([], ''fallback_error''))
             else ([], ''fallback''));
          suggestions =
            (if llm_suggestions = []
             then (let base = hit_titles (take 6 hits);
                       from_hits = py_take k (filter (\<lambda>s. s \<noteq> []) base)
                   in if from_hits = [] then py_take k generic_suggestions else from_hits)
             else llm_suggestions);
          chips = map (\<lambda>s. \<lparr>label = s, payload = Faq s\<rparr>) suggestions;
          suggest_live_chat = should_offer_live_chat user_question answer_text (length hits)
      in (py_take k chips, suggest_live_chat, source))"

text \<open>
  Three pieces of the body of \<open>build_llm_style_followups\<close>, named for the proofs: the
  hits after the retry with the answer text, the outcome of the guarded call of the
  language model with the source it sets, and the fallback from the hit titles to the
  generic list. \<open>build_unfold\<close> below shows that the body is their composition.
\<close>

definition followup_hits :: "env \<Rightarrow> string \<Rightarrow> string \<Rightarrow> hit list" where
  "followup_hits e user_question answer_text =
     (let hits0 = mongo_text_search e user_question 8
      in if hits0 = [] \<and> answer_text \<noteq> [] then mongo_text_search e answer_text 8 else hits0)"

definition model_suggestions ::
  "env \<Rightarrow> string \<Rightarrow> string \<Rightarrow> hit list \<Rightarrow> int \<Rightarrow> string list \<times> string" where
  "model_suggestions e user_question answer_text hits k =
     (if use_llm_followups e \<and>
         (case openai_api_key e of None \<Rightarrow> False | Some key \<Rightarrow> key \<noteq> [])
      then (case llm_generate_followups e user_question answer_text hits k of
              Inr sugg \<Rightarrow> (sugg, if sugg \<noteq> [] then ''openai'' else ''fallback'')
            | Inl exc \<Rightarrow> ([], ''fallback_error''))
      else ([], ''fallback''))"

definition fallback_suggestions :: "hit list \<Rightarrow> int \<Rightarrow> string list" where
  "fallback_suggestions hits k =
     (let base = hit_titles (take 6 hits);
          from_hits = py_take k (filter (\<lambda>s. s \<noteq> []) base)
      in if from_hits = [] then py_take k generic_suggestions else from_hits)"

section \<open>Sample environments\<close>

text \<open>
  The concrete inputs of the examples. \<open>json_loads_sample\<close> is \<open>json.loads\<close> on the
  texts the examples parse: the JSON texts listed, and a \<open>ValueError\<close> (the class of
  \<open>JSONDecodeError\<close>) on the other texts used, none of which is a JSON text.
  \<open>offline_env\<close> has the language model switched off, an empty knowledge base and an
  answer provider that raises; \<open>titles_env\<close> adds two knowledge hits whose titles differ
  in case only; \<open>llm_env\<close> switches the language model on and lets it answer with a JSON
  array of three suggestions.
\<close>

definition json_loads_sample :: "string \<Rightarrow> error + json" where
  \<open>json_loads_sample s =
     (if s = ''["Apply now", "apply now", "Deadlines?"]''
      then Inr (JArr [JStr ''Apply now'', JStr ''apply now'', JStr ''Deadlines?''])
      else if s = ''["a"]'' then Inr (JArr [JStr ''a''])
      else if s = ''["b"]'' then Inr (JArr [JStr ''b''])
      else if s = ''{"items": ["a", 1]}'' then Inr (JObj [(''items'', JArr [JStr ''a'', JNum 1])])
      else if s = ''["a", 1]'' then Inr (JArr [JStr ''a'', JNum 1])
      else Inl ValueError)\<close>

definition offline_env :: env where
  "offline_env =
     \<lparr>use_llm_followups = False, openai_api_key = None, followup_model = ''gpt-4o-mini'',
      debug_followups = False, followup_model_legacy = None,
      kb_find = (\<lambda>q. []),
      openai_v1 = (\<lambda>r. Inl (Raised ''offline'')),
      openai_v0 = (\<lambda>r. Inl (Raised ''offline'')),
      json_loads = json_loads_sample,
      get_answer = (\<lambda>q. Inl (Raised ''offline'')),
      get_answer_stream = (\<lambda>q. ([], None))\<rparr>"

definition titles_env :: env where
  "titles_env = offline_env
     \<lparr>kb_find := (\<lambda>q. [\<lparr>title = Some ''Apply now'', category = Some ''Admissions'', url = None\<rparr>,
                       \<lparr>title = Some ''apply now'', category = None, url = None\<rparr>])\<rparr>"

definition llm_env :: env where
  \<open>llm_env = offline_env
     \<lparr>use_llm_followups := True, openai_api_key := Some ''sk-test'',
      openai_v1 := (\<lambda>r. Inr (Some ''["Apply now", "apply now", "Deadlines?"]''))\<rparr>\<close>

section \<open>The claims' own words\<close>

text \<open>
  The reading of \<open>_safe_json_list\<close> that the words of claim C10 give, for comparison with
  the code: after a direct parse that gives no list, the result comes from the first
  substring that starts with an opening bracket, ends with a closing bracket and parses
  as a JSON list (the substrings taken by start position, then by end position).
\<close>

definition bracketed_substrings :: "string \<Rightarrow> string list" where
  "bracketed_substrings s =
     [take (Suc j - i) (drop i s).
        i \<leftarrow> [0..<length s], s ! i = CHR ''['', j \<leftarrow> [Suc i..<length s], s ! j = CHR '']'']"

definition claimed_safe_json_list :: "env \<Rightarrow> string \<Rightarrow> string list" where
  "claimed_safe_json_list e s =
     (case json_loads e s of
        Inr (JArr data) \<Rightarrow> str_items data
      | _ \<Rightarrow>
          (case [data. frag \<leftarrow> bracketed_substrings s, Inr (JArr data) \<leftarrow> [json_loads e frag]] of
             [] \<Rightarrow> []
           | data # _ \<Rightarrow> str_items data))"

section \<open>Substrings and lower-casing\<close>

lemma py_in_iff: "py_in k s \<longleftrightarrow> (\<exists>u v. s = u @ k @ v)"
proof (induction s)
  case Nil
  then show ?case by auto
next
  case (Cons c s)
  show ?case
  proof
    assume "py_in k (c # s)"
    then consider "prefix k (c # s)" | "py_in k s" by auto
    then show "\<exists>u v. c # s = u @ k @ v"
    proof cases
      case 1
      then obtain v where "c # s = k @ v" by (auto simp: prefix_def)
      then have "c # s = [] @ k @ v" by simp
      then show ?thesis by blast
    next
      case 2
      then obtain u v where "s = u @ k @ v" using Cons.IH by blast
      then have "c # s = (c # u) @ k @ v" by simp
      then show ?thesis by blast
    qed
  next
    assume "\<exists>u v. c # s = u @ k @ v"
    then obtain u v where uv: "c # s = u @ k @ v" by blast
    show "py_in k (c # s)"
    proof (cases u)
      case Nil
      with uv have "prefix k (c # s)" by (simp add: prefix_def)
      then show ?thesis by simp
    next
      case (Cons d u')
      with uv have "s = u' @ k @ v" by simp
      then have "py_in k s" using Cons.IH by blast
      then show ?thesis by simp
    qed
  qed
qed

lemma lower_append: "lower (u @ v) = lower u @ lower v"
  by (simp add: lower_def)

lemma py_in_lower_iff:
  "py_in k (lower s) \<longleftrightarrow> (\<exists>u w v. s = u @ w @ v \<and> lower w = k)"
proof
  assume "py_in k (lower s)"
  then have "\<exists>u' v'. map lower_char s = u' @ k @ v'"
    by (simp add: py_in_iff lower_def)
  then obtain u' v' where "map lower_char s = u' @ k @ v'" by (elim exE)
  then have "\<exists>u r. s = u @ r \<and> u' = map lower_char u \<and> k @ v' = map lower_char r"
    by (simp only: map_eq_append_conv)
  then obtain u r where s: "s = u @ r" and r: "k @ v' = map lower_char r"
    by (elim exE conjE)
  from r have "\<exists>w v. r = w @ v \<and> k = map lower_char w \<and> v' = map lower_char v"
    by (simp only: append_eq_map_conv)
  then obtain w v where "r = w @ v" and "k = map lower_char w"
    by (elim exE conjE)
  with s have "s = u @ w @ v \<and> lower w = k"
    by (simp add: lower_def)
  then show "\<exists>u w v. s = u @ w @ v \<and> lower w = k"
    by (intro exI)
next
  assume "\<exists>u w v. s = u @ w @ v \<and> lower w = k"
  then obtain u w v where "s = u @ w @ v" and "lower w = k" by blast
  then have "lower s = lower u @ k @ lower v" by (simp add: lower_append)
  then show "py_in k (lower s)" unfolding py_in_iff by blast
qed

lemma build_escalate:
  "fst (snd (build_llm_style_followups e q a k)) = should_offer_live_chat q a
     (length (let hits0 = mongo_text_search e q 8 in if hits0 = [] \<and> a \<noteq> [] then mongo_text_search e a 8 else hits0))"
  by (simp add: build_llm_style_followups_def Let_def split: prod.splits)

lemma build_escalate_iff:
  "fst (snd (build_llm_style_followups e q a k)) =
     ((\<exists>kw \<in> set ESCALATION_KEYWORDS. \<exists>u w v. q = u @ w @ v \<and> lower w = kw) \<or>
      (\<exists>p \<in> set low_conf. \<exists>u w v. a = u @ w @ v \<and> lower w = p))"
proof -
  have "fst (snd (build_llm_style_followups e q a k)) =
          (wants_human q \<or> list_ex (\<lambda>p. py_in p (lower a)) low_conf)"
    by (simp add: build_escalate should_offer_live_chat_def Let_def)
  also have "wants_human q = (\<exists>kw \<in> set ESCALATION_KEYWORDS. py_in kw (lower q))"
    by (simp add: wants_human_def Let_def list_ex_iff)
  also have "list_ex (\<lambda>p. py_in p (lower a)) low_conf = (\<exists>p \<in> set low_conf. py_in p (lower a))"
    by (simp add: list_ex_iff)
  finally show ?thesis by (simp only: py_in_lower_iff)
qed

text \<open>
  Claim C6. The escalation signal returned by \<open>build_llm_style_followups\<close> is true
  exactly when some run of characters of the question lower-cases to a keyword of
  \<open>ESCALATION_KEYWORDS\<close>, or some run of characters of the answer lower-cases to a phrase
  of the low-confidence list; whatever the environment, the search result and \<open>k\<close> are.
  In particular every question that contains \<open>talk to someone\<close> escalates, whatever the
  answer is, and so does every answer that contains \<open>I don't have\<close>.
\<close>

theorem escalation_signal:
  "fst (snd (build_llm_style_followups e q a k)) =
     ((\<exists>kw \<in> set ESCALATION_KEYWORDS. \<exists>u w v. q = u @ w @ v \<and> lower w = kw) \<or>
      (\<exists>p \<in> set low_conf. \<exists>u w v. a = u @ w @ v \<and> lower w = p))
   \<and> fst (snd (build_llm_style_followups e (x @ ''talk to someone'' @ y) a k))
   \<and> fst (snd (build_llm_style_followups e q (x @ ''I don't have'' @ y) k))"
proof (intro conjI)
  show "fst (snd (build_llm_style_followups e q a k)) =
     ((\<exists>kw \<in> set ESCALATION_KEYWORDS. \<exists>u w v. q = u @ w @ v \<and> lower w = kw) \<or>
      (\<exists>p \<in> set low_conf. \<exists>u w v. a = u @ w @ v \<and> lower w = p))"
    by (rule build_escalate_iff)
next
  have l: "lower ''talk to someone'' = ''talk to someone''" by code_simp
  have m: "''talk to someone'' \<in> set ESCALATION_KEYWORDS"
    by (simp add: ESCALATION_KEYWORDS_def)
  have "\<exists>u w v. x @ ''talk to someone'' @ y = u @ w @ v \<and> lower w = ''talk to someone''"
    using l by (intro exI conjI) (rule refl)
  with m show "fst (snd (build_llm_style_followups e (x @ ''talk to someone'' @ y) a k))"
    unfolding build_escalate_iff by (intro disjI1 bexI)
next
  have l: "lower ''I don't have'' = ''i don't have''" by code_simp
  have m: "''i don't have'' \<in> set low_conf"
    by (simp add: low_conf_def)
  have "\<exists>u w v. x @ ''I don't have'' @ y = u @ w @ v \<and> lower w = ''i don't have''"
    using l by (intro exI conjI) (rule refl)
  with m show "fst (snd (build_llm_style_followups e q (x @ ''I don't have'' @ y) k))"
    unfolding build_escalate_iff by (intro disjI2 bexI)
qed

section \<open>Slices, the item loop and the parts of the generator\<close>

lemma length_py_take: "0 \<le> k \<Longrightarrow> int (length (py_take k xs)) \<le> k"
  by (simp add: py_take_def)

lemma set_py_take: "set (py_take k xs) \<subseteq> set xs"
  by (auto simp: py_take_def dest: in_set_takeD)

lemma py_take_map: "py_take k (map f xs) = map f (py_take k xs)"
  by (simp add: py_take_def take_map)

lemma distinct_py_take: "distinct xs \<Longrightarrow> distinct (py_take k xs)"
  by (simp add: py_take_def)

lemma uniq_loop_nonempty:
  "[] \<notin> set uniq \<Longrightarrow> [] \<notin> set (uniq_loop k items uniq seen)"
  by (induction items arbitrary: uniq seen) (auto simp: Let_def)

lemma uniq_loop_step:
  "uniq_loop k (it # items) uniq seen =
     (let s = (if endswith (strip it) CHR ''?'' then butlast (strip it) else strip it)
      in if s \<noteq> [] \<and> lower s \<notin> seen
         then (if k \<le> int (length (uniq @ [s])) then uniq @ [s]
               else uniq_loop k items (uniq @ [s]) (insert (lower s) seen))
         else (if k \<le> int (length uniq) then uniq else uniq_loop k items uniq seen))"
  by (simp add: Let_def)

lemma uniq_loop_distinct:
  "distinct (map lower uniq) \<Longrightarrow> seen = set (map lower uniq) \<Longrightarrow>
   distinct (map lower (uniq_loop k items uniq seen))"
proof (induction items arbitrary: uniq seen)
  case Nil
  then show ?case by simp
next
  case (Cons it items)
  define s where "s = (if endswith (strip it) CHR ''?'' then butlast (strip it) else strip it)"
  note step = uniq_loop_step [of k it items uniq seen, unfolded Let_def, folded s_def]
  show ?case
  proof (cases "s \<noteq> [] \<and> lower s \<notin> seen")
    case True
    have d: "distinct (map lower (uniq @ [s]))"
      using True Cons.prems by auto
    have e: "insert (lower s) seen = set (map lower (uniq @ [s]))"
      using Cons.prems by auto
    have eq: "uniq_loop k (it # items) uniq seen =
                (if k \<le> int (length (uniq @ [s])) then uniq @ [s]
                 else uniq_loop k items (uniq @ [s]) (insert (lower s) seen))"
      by (subst step) (rule if_P [OF True])
    show ?thesis
    proof (cases "k \<le> int (length (uniq @ [s]))")
      case True
      with eq have "uniq_loop k (it # items) uniq seen = uniq @ [s]" by (simp only: if_True)
      with d show ?thesis by (simp only:)
    next
      case False
      with eq have "uniq_loop k (it # items) uniq seen =
                      uniq_loop k items (uniq @ [s]) (insert (lower s) seen)"
        by (simp only: if_False)
      with Cons.IH [OF d e] show ?thesis by (simp only:)
    qed
  next
    case False
    have eq: "uniq_loop k (it # items) uniq seen =
                (if k \<le> int (length uniq) then uniq else uniq_loop k items uniq seen)"
      by (subst step) (rule if_not_P [OF False])
    show ?thesis
    proof (cases "k \<le> int (length uniq)")
      case True
      with eq have "uniq_loop k (it # items) uniq seen = uniq" by (simp only: if_True)
      with Cons.prems(1) show ?thesis by (simp only:)
    next
      case False
      with eq have "uniq_loop k (it # items) uniq seen = uniq_loop k items uniq seen"
        by (simp only: if_False)
      with Cons.IH [OF Cons.prems] show ?thesis by (simp only:)
    qed
  qed
qed

lemma hit_titles_nonempty: "[] \<notin> set (hit_titles hs)"
  by (induction hs) (auto split: option.splits)

lemma generic_nonempty: "[] \<notin> set generic_suggestions"
  by (simp add: generic_suggestions_def)

lemma generic_distinct: "distinct (map lower generic_suggestions)"
  unfolding generic_suggestions_def by code_simp

lemma chips_of_nonempty:
  "[] \<notin> set xs \<Longrightarrow> c \<in> set (py_take k (map (\<lambda>s. \<lparr>label = s, payload = Faq s\<rparr>) xs)) \<Longrightarrow> label c \<noteq> []"
  using set_py_take [of k "map (\<lambda>s. \<lparr>label = s, payload = Faq s\<rparr>) xs"] by auto

lemma py_take_nonempty: "[] \<notin> set xs \<Longrightarrow> [] \<notin> set (py_take k xs)"
  using set_py_take [of k xs] by auto

lemma llm_generate_nonempty:
  "llm_generate_followups e q a hs k = Inr sugg \<Longrightarrow> [] \<notin> set sugg"
  using uniq_loop_nonempty [of "[]"]
  by (auto simp: llm_generate_followups_def split: sum.splits)

lemma llm_generate_distinct:
  "llm_generate_followups e q a hs k = Inr sugg \<Longrightarrow> distinct (map lower sugg)"
  using uniq_loop_distinct [of "[]" "{}"]
  by (auto simp: llm_generate_followups_def split: sum.splits)

lemma build_unfold:
  "build_llm_style_followups e q a k =
     (let hits = followup_hits e q a;
          r = model_suggestions e q a hits k;
          suggestions = (if fst r = [] then fallback_suggestions hits k else fst r)
      in (py_take k (map (\<lambda>s. \<lparr>label = s, payload = Faq s\<rparr>) suggestions),
          should_offer_live_chat q a (length hits), snd r))"
  by (simp add: build_llm_style_followups_def followup_hits_def model_suggestions_def
      fallback_suggestions_def Let_def split: prod.splits)

lemma model_suggestions_source:
  "snd (model_suggestions e q a hs k) \<in> {''openai'', ''fallback'', ''fallback_error''}"
  by (simp add: model_suggestions_def split: sum.splits)

lemma model_suggestions_nonempty: "[] \<notin> set (fst (model_suggestions e q a hs k))"
  by (auto simp: model_suggestions_def split: sum.splits dest: llm_generate_nonempty)

lemma model_suggestions_distinct: "distinct (map lower (fst (model_suggestions e q a hs k)))"
  by (auto simp: model_suggestions_def split: sum.splits dest: llm_generate_distinct)

lemma model_suggestions_openai:
  "(snd (model_suggestions e q a hs k) = ''openai'') = (fst (model_suggestions e q a hs k) \<noteq> [])"
  by (simp add: model_suggestions_def split: sum.splits)

lemma fallback_suggestions_nonempty: "[] \<notin> set (fallback_suggestions hs k)"
  using py_take_nonempty [OF generic_nonempty, of k]
    py_take_nonempty [of "filter (\<lambda>s. s \<noteq> []) (hit_titles (take 6 hs))" k]
  by (simp add: fallback_suggestions_def Let_def)

lemma fallback_suggestions_generic:
  "hit_titles (take 6 hs) = [] \<Longrightarrow> fallback_suggestions hs k = py_take k generic_suggestions"
  by (simp add: fallback_suggestions_def Let_def py_take_def)

lemma build_source:
  "snd (snd (build_llm_style_followups e q a k)) \<in> {''openai'', ''fallback'', ''fallback_error''}"
  using model_suggestions_source [of e q a "followup_hits e q a" k]
  by (simp add: build_unfold Let_def)

lemma build_labels:
  assumes "c \<in> set (fst (build_llm_style_followups e q a k))"
  shows "label c \<noteq> []"
proof -
  define hits where "hits = followup_hits e q a"
  define sugg where "sugg = (if fst (model_suggestions e q a hits k) = []
    then fallback_suggestions hits k else fst (model_suggestions e q a hits k))"
  have "[] \<notin> set sugg"
    unfolding sugg_def
    using model_suggestions_nonempty [of e q a hits k] fallback_suggestions_nonempty [of hits k]
    by simp
  moreover have "fst (build_llm_style_followups e q a k) =
          py_take k (map (\<lambda>s. \<lparr>label = s, payload = Faq s\<rparr>) sugg)"
    by (simp add: build_unfold Let_def hits_def sugg_def)
  with assms have "c \<in> set (py_take k (map (\<lambda>s. \<lparr>label = s, payload = Faq s\<rparr>) sugg))"
    by (simp only:)
  ultimately show ?thesis by (rule chips_of_nonempty)
qed

lemma build_length:
  "0 \<le> k \<Longrightarrow> int (length (fst (build_llm_style_followups e q a k))) \<le> k"
  by (simp add: build_unfold Let_def length_py_take)

lemma build_distinct:
  assumes "snd (snd (build_llm_style_followups e q a k)) = ''openai'' \<or>
           hit_titles (take 6 (followup_hits e q a)) = []"
  shows "distinct (map (\<lambda>c. lower (label c)) (fst (build_llm_style_followups e q a k)))"
proof -
  define hits where "hits = followup_hits e q a"
  define sugg where "sugg = (if fst (model_suggestions e q a hits k) = []
    then fallback_suggestions hits k else fst (model_suggestions e q a hits k))"
  have fst_eq: "fst (build_llm_style_followups e q a k) =
          py_take k (map (\<lambda>s. \<lparr>label = s, payload = Faq s\<rparr>) sugg)"
    by (simp add: build_unfold Let_def hits_def sugg_def)
  have snd_eq: "snd (snd (build_llm_style_followups e q a k)) = snd (model_suggestions e q a hits k)"
    by (simp add: build_unfold Let_def hits_def)
  have d: "distinct (map lower sugg)"
  proof (cases "fst (model_suggestions e q a hits k) = []")
    case False
    then have "sugg = fst (model_suggestions e q a hits k)" by (simp add: sugg_def)
    then show ?thesis using model_suggestions_distinct [of e q a hits k] by simp
  next
    case True
    then have "snd (model_suggestions e q a hits k) \<noteq> ''openai''"
      by (simp add: model_suggestions_openai)
    with assms snd_eq have "hit_titles (take 6 hits) = []" by (simp add: hits_def)
    then have "sugg = py_take k generic_suggestions"
      using True by (simp add: sugg_def fallback_suggestions_generic)
    then show ?thesis
      using distinct_py_take [OF generic_distinct, of k] by (simp add: py_take_map)
  qed
  have "map (\<lambda>c. lower (label c)) (fst (build_llm_style_followups e q a k)) =
          py_take k (map lower sugg)"
    by (simp add: fst_eq py_take_map comp_def)
  with distinct_py_take [OF d, of k] show ?thesis by simp
qed

section \<open>The bracketed span and the defensive parser\<close>

lemma str_items_eq: "str_items d = [x. JStr x \<leftarrow> d]"
  by (induction d rule: str_items.induct) simp_all

lemma bracket_span_Some:
  assumes "CHR ''['' \<notin> set pre" "CHR '']'' \<notin> set post"
  shows "bracket_span (pre @ [CHR ''[''] @ mid @ [CHR '']''] @ post) =
           Some ([CHR ''[''] @ mid @ [CHR '']''])"
proof -
  have p1: "\<forall>x\<in>set pre. x \<noteq> CHR ''[''" using assms(1) by auto
  have p2: "\<forall>x\<in>set (rev post). x \<noteq> CHR '']''" using assms(2) by auto
  have a: "dropWhile (\<lambda>c. c \<noteq> CHR ''['') (pre @ [CHR ''[''] @ mid @ [CHR '']''] @ post) =
             CHR ''['' # mid @ [CHR '']''] @ post"
    using p1 by (simp add: dropWhile_append3)
  have b: "dropWhile (\<lambda>c. c \<noteq> CHR '']'') (rev post @ CHR '']'' # rev mid) = CHR '']'' # rev mid"
    using p2 by (simp add: dropWhile_append3)
  show ?thesis
    unfolding bracket_span_def Let_def a by (simp add: b)
qed

lemma bracket_span_SomeD:
  assumes "bracket_span s = Some frag"
  shows "\<exists>pre mid post. s = pre @ [CHR ''[''] @ mid @ [CHR '']''] @ post \<and>
           CHR ''['' \<notin> set pre \<and> CHR '']'' \<notin> set post \<and>
           frag = [CHR ''[''] @ mid @ [CHR '']'']"
proof -
  define P where "P = (\<lambda>c. c \<noteq> CHR ''['')"
  define Q where "Q = (\<lambda>c. c \<noteq> CHR '']'')"
  define pre where "pre = takeWhile P s"
  define t where "t = dropWhile P s"
  define post where "post = rev (takeWhile Q (rev (tl t)))"
  define r where "r = rev (dropWhile Q (rev (tl t)))"
  from assms have t: "t \<noteq> []" and r: "r \<noteq> []" and frag: "frag = CHR ''['' # r"
    by (auto simp: bracket_span_def Let_def t_def r_def P_def Q_def split: if_splits)
  have s: "s = pre @ t" by (simp add: pre_def t_def)
  have "hd t = CHR ''[''" using t hd_dropWhile [of P s] by (simp add: t_def P_def)
  with t have t2: "t = CHR ''['' # tl t" by (cases t) simp_all
  have tl: "tl t = r @ post"
    unfolding r_def post_def by (simp flip: rev_append)
  have "dropWhile Q (rev (tl t)) \<noteq> []" using r by (simp add: r_def)
  then have "\<not> Q (hd (dropWhile Q (rev (tl t))))" by (rule hd_dropWhile)
  then have "hd (rev r) = CHR '']''" by (simp add: r_def Q_def)
  then have "last r = CHR '']''" using r by (simp add: hd_rev)
  then have r2: "r = butlast r @ [CHR '']'']" using r by (metis append_butlast_last_id)
  have pre: "CHR ''['' \<notin> set pre"
    using set_takeWhileD [of "CHR ''[''" P s] by (auto simp: pre_def P_def)
  have post: "CHR '']'' \<notin> set post"
    using set_takeWhileD [of "CHR '']''" Q "rev (tl t)"] by (auto simp: post_def Q_def)
  have "s = pre @ [CHR ''[''] @ butlast r @ [CHR '']''] @ post"
    using s t2 tl r2 by (metis append_Cons append_Nil append_assoc)
  moreover have "frag = [CHR ''[''] @ butlast r @ [CHR '']'']"
    using frag r2 by simp
  ultimately show ?thesis using pre post by blast
qed

lemma safe_json_list_direct:
  "s \<noteq> [] \<Longrightarrow> json_loads e s = Inr (JArr d) \<Longrightarrow> safe_json_list e s = str_items d"
  by (simp add: safe_json_list_def)

lemma safe_json_list_fallback:
  assumes "\<forall>d. json_loads e s \<noteq> Inr (JArr d)"
  shows "safe_json_list e s =
           (case bracket_span s of
              None \<Rightarrow> []
            | Some frag \<Rightarrow>
                (case json_loads e frag of Inr (JArr data) \<Rightarrow> str_items data | _ \<Rightarrow> []))"
proof (cases "s = []")
  case True
  then show ?thesis by (simp add: safe_json_list_def bracket_span_def)
next
  case False
  with assms show ?thesis
    by (simp add: safe_json_list_def split: sum.splits json.splits)
qed

section \<open>The contract of the follow-up generator\<close>

lemma llm_env_value:
  "build_llm_style_followups llm_env ''how do i apply'' ''Use the portal.'' 4 =
     ([\<lparr>label = ''Apply now'', payload = Faq ''Apply now''\<rparr>,
       \<lparr>label = ''Deadlines'', payload = Faq ''Deadlines''\<rparr>], False, ''openai'')"
  by code_simp

text \<open>
  Claim C1, as amended. \<open>k\<close> is a Python integer and the slices \<open>[:k]\<close> accept a negative
  one, so the bound on the number of chips holds for every \<open>k\<close> that is not negative:
  then \<open>build_llm_style_followups\<close> returns at most \<open>k\<close> chips. For every \<open>k\<close>, negative
  or not, every chip has a non-empty label and the source is one of \<open>openai\<close>,
  \<open>fallback\<close> and \<open>fallback_error\<close>.
\<close>

theorem followups_contract:
  "(0 \<le> k \<longrightarrow> int (length (fst (build_llm_style_followups e q a k))) \<le> k) \<and>
   (\<forall>c \<in> set (fst (build_llm_style_followups e q a k)). label c \<noteq> []) \<and>
   snd (snd (build_llm_style_followups e q a k)) \<in> {''openai'', ''fallback'', ''fallback_error''}"
  using build_length [of k e q a] build_labels [of _ e q a k] build_source [of e q a k]
  by blast

text \<open>
  The contract at \<open>k = 4\<close>, with the language model answering: two chips, both labelled,
  from the source \<open>openai\<close>.
\<close>

theorem followups_contract_witness:
  "(0::int) \<le> 4 \<and>
   map label (fst (build_llm_style_followups llm_env ''how do i apply'' ''Use the portal.'' 4)) =
     [''Apply now'', ''Deadlines''] \<and>
   int (length (fst (build_llm_style_followups llm_env ''how do i apply'' ''Use the portal.'' 4))) \<le> 4 \<and>
   list_all (\<lambda>c. label c \<noteq> [])
     (fst (build_llm_style_followups llm_env ''how do i apply'' ''Use the portal.'' 4)) \<and>
   snd (snd (build_llm_style_followups llm_env ''how do i apply'' ''Use the portal.'' 4))
     \<in> {''openai'', ''fallback'', ''fallback_error''}"
  using followups_contract [of 4 llm_env "''how do i apply''" "''Use the portal.''"]
  by (simp add: llm_env_value list_all_iff)

text \<open>
  Claim C1 as stated fails at \<open>k = -1\<close>: with no hits and no language model the generic
  list is cut to its first three entries, the chips to the first two, and two chips are
  more than \<open>-1\<close>.
\<close>

theorem followups_contract_counterexample:
  "map label (fst (build_llm_style_followups offline_env ''library hours'' ''Mon-Fri'' (- 1))) =
     [''application deadlines for scholarships'', ''GPA needed for freshman admission''] \<and>
   \<not> int (length (fst (build_llm_style_followups offline_env ''library hours'' ''Mon-Fri'' (- 1))))
       \<le> - 1"
  by code_simp

text \<open>
  Claim C2, as amended. Only the suggestions of the language model pass through the
  loop that removes duplicates. Whenever the source is \<open>openai\<close>, or no knowledge hit
  among the first six has a non-empty title (so that the chips are the generic list), no
  two chips of the result have labels that are equal after lower-casing. Chips taken
  from the titles of knowledge hits are not deduplicated.
\<close>

theorem followups_deduplicated:
  "snd (snd (build_llm_style_followups e q a k)) = ''openai'' \<or>
   hit_titles (take 6 (followup_hits e q a)) = [] \<Longrightarrow>
   distinct (map (\<lambda>c. lower (label c)) (fst (build_llm_style_followups e q a k)))"
  by (rule build_distinct)

text \<open>
  The language model answers \<open>["Apply now", "apply now", "Deadlines?"]\<close>: the second
  suggestion is dropped and the question mark stripped.
\<close>

theorem followups_deduplicated_witness:
  "snd (snd (build_llm_style_followups llm_env ''how do i apply'' ''Use the portal.'' 4)) = ''openai'' \<and>
   map label (fst (build_llm_style_followups llm_env ''how do i apply'' ''Use the portal.'' 4)) =
     [''Apply now'', ''Deadlines''] \<and>
   distinct (map (\<lambda>c. lower (label c))
     (fst (build_llm_style_followups llm_env ''how do i apply'' ''Use the portal.'' 4)))"
proof -
  have s: "snd (snd (build_llm_style_followups llm_env ''how do i apply'' ''Use the portal.'' 4)) = ''openai''"
    by (simp add: llm_env_value)
  from followups_deduplicated [OF disjI1, OF s] s show ?thesis
    by (simp add: llm_env_value)
qed

text \<open>
  Claim C2 as stated fails for two knowledge hits titled \<open>Apply now\<close> and \<open>apply now\<close>
  with the language model switched off: both become chips.
\<close>

theorem followups_deduplicated_counterexample:
  "map label (fst (build_llm_style_followups titles_env ''how do i apply'' ''Use the portal.'' 4)) =
     [''Apply now'', ''apply now''] \<and>
   lower ''Apply now'' = lower ''apply now'' \<and>
   \<not> distinct (map (\<lambda>c. lower (label c))
        (fst (build_llm_style_followups titles_env ''how do i apply'' ''Use the portal.'' 4)))"
  by code_simp

text \<open>
  Claim C10, as amended. \<open>_safe_json_list\<close> returns a list of strings in every case, and
  which one is decided as follows. The empty input gives the empty list. When the direct
  parse of a non-empty input gives a JSON list, the result is exactly the string elements
  of that list, in order, the other elements being dropped. When the direct parse raises
  or gives a value that is no list, one candidate only is tried: the span from the first
  opening bracket of the input to the last closing bracket after it; when that span parses
  as a JSON list the result is exactly its string elements. In every other case (no such
  span, or the span does not parse as a JSON list) the result is the empty list.
\<close>

theorem safe_json_list_result:
  "(s = [] \<longrightarrow> safe_json_list e s = []) \<and>
   (s \<noteq> [] \<longrightarrow> json_loads e s = Inr (JArr d) \<longrightarrow> safe_json_list e s = [x. JStr x \<leftarrow> d]) \<and>
   ((\<forall>d'. json_loads e s \<noteq> Inr (JArr d')) \<longrightarrow>
      s = pre @ ''['' @ mid @ '']'' @ post \<longrightarrow> CHR ''['' \<notin> set pre \<longrightarrow> CHR '']'' \<notin> set post \<longrightarrow>
      json_loads e (''['' @ mid @ '']'') = Inr (JArr d) \<longrightarrow>
      safe_json_list e s = [x. JStr x \<leftarrow> d]) \<and>
   ((\<forall>d'. json_loads e s \<noteq> Inr (JArr d')) \<longrightarrow>
      (\<forall>pre' mid' post' d'.
          s = pre' @ ''['' @ mid' @ '']'' @ post' \<and> CHR ''['' \<notin> set pre' \<and> CHR '']'' \<notin> set post'
          \<longrightarrow> json_loads e (''['' @ mid' @ '']'') \<noteq> Inr (JArr d')) \<longrightarrow>
      safe_json_list e s = [])"
proof (intro conjI impI)
  assume "s = []"
  then show "safe_json_list e s = []" by (simp add: safe_json_list_def)
next
  assume "s \<noteq> []" and "json_loads e s = Inr (JArr d)"
  then show "safe_json_list e s = [x. JStr x \<leftarrow> d]"
    by (simp add: safe_json_list_direct str_items_eq)
next
  assume direct: "\<forall>d'. json_loads e s \<noteq> Inr (JArr d')"
    and s: "s = pre @ ''['' @ mid @ '']'' @ post"
    and pre: "CHR ''['' \<notin> set pre" and post: "CHR '']'' \<notin> set post"
    and frag: "json_loads e (''['' @ mid @ '']'') = Inr (JArr d)"
  have "bracket_span s = Some (''['' @ mid @ '']'')"
    unfolding s using pre post by (rule bracket_span_Some)
  with frag show "safe_json_list e s = [x. JStr x \<leftarrow> d]"
    by (simp add: safe_json_list_fallback [OF direct] str_items_eq)
next
  assume direct: "\<forall>d'. json_loads e s \<noteq> Inr (JArr d')"
    and none: "\<forall>pre' mid' post' d'.
          s = pre' @ ''['' @ mid' @ '']'' @ post' \<and> CHR ''['' \<notin> set pre' \<and> CHR '']'' \<notin> set post'
          \<longrightarrow> json_loads e (''['' @ mid' @ '']'') \<noteq> Inr (JArr d')"
  show "safe_json_list e s = []"
  proof (cases "bracket_span s")
    case None
    then show ?thesis by (simp add: safe_json_list_fallback [OF direct])
  next
    case (Some frag)
    from bracket_span_SomeD [OF Some] obtain pre' mid' post' where
      "s = pre' @ ''['' @ mid' @ '']'' @ post'" "CHR ''['' \<notin> set pre'" "CHR '']'' \<notin> set post'"
      and f: "frag = ''['' @ mid' @ '']''"
      by (elim exE conjE)
    with none have "\<forall>d'. json_loads e frag \<noteq> Inr (JArr d')" by (simp only:) blast
    then show ?thesis
      by (simp add: safe_json_list_fallback [OF direct] Some split: sum.splits json.splits)
  qed
qed

text \<open>
  The four cases on sample texts: a list inside a sentence, a list parsed directly, the
  empty input and a text with no bracket.
\<close>

theorem safe_json_list_result_witness:
  \<open>''Sure: ["a", 1]'' = ''Sure: '' @ ''['' @ ''"a", 1'' @ '']'' @ [] \<and>
   CHR ''['' \<notin> set ''Sure: '' \<and> CHR '']'' \<notin> set [] \<and>
   json_loads offline_env ''Sure: ["a", 1]'' = Inl ValueError \<and>
   json_loads offline_env (''['' @ ''"a", 1'' @ '']'') = Inr (JArr [JStr ''a'', JNum 1]) \<and>
   safe_json_list offline_env ''Sure: ["a", 1]'' = [''a''] \<and>
   safe_json_list offline_env ''["a", 1]'' = [''a''] \<and>
   safe_json_list offline_env [] = [] \<and>
   safe_json_list offline_env ''no list here'' = []\<close>
proof -
  have 1: \<open>''Sure: ["a", 1]'' = ''Sure: '' @ ''['' @ ''"a", 1'' @ '']'' @ []\<close> by simp
  have 2: "CHR ''['' \<notin> set ''Sure: ''" by simp
  have 3: "CHR '']'' \<notin> set ([] :: string)" by simp
  have 4: \<open>json_loads offline_env ''Sure: ["a", 1]'' = Inl ValueError\<close> by code_simp
  have 5: \<open>json_loads offline_env (''['' @ ''"a", 1'' @ '']'') = Inr (JArr [JStr ''a'', JNum 1])\<close>
    by code_simp
  have 6: \<open>\<forall>d'. json_loads offline_env ''Sure: ["a", 1]'' \<noteq> Inr (JArr d')\<close>
    by (simp add: 4)
  have 7: \<open>json_loads offline_env ''["a", 1]'' = Inr (JArr [JStr ''a'', JNum 1])\<close> by code_simp
  have 8: \<open>json_loads offline_env ''no list here'' = Inl ValueError\<close> by code_simp
  have 9: \<open>\<forall>pre' mid' post' d'.
          ''no list here'' = pre' @ ''['' @ mid' @ '']'' @ post' \<and> CHR ''['' \<notin> set pre' \<and> CHR '']'' \<notin> set post'
          \<longrightarrow> json_loads offline_env (''['' @ mid' @ '']'') \<noteq> Inr (JArr d')\<close>
  proof (intro allI impI)
    fix pre' mid' post' d'
    assume "''no list here'' = pre' @ ''['' @ mid' @ '']'' @ post' \<and> CHR ''['' \<notin> set pre' \<and> CHR '']'' \<notin> set post'"
    then have "set ''no list here'' = set (pre' @ ''['' @ mid' @ '']'' @ post')" by (simp only:)
    then have "CHR ''['' \<in> set ''no list here''" by simp
    then show "json_loads offline_env (''['' @ mid' @ '']'') \<noteq> Inr (JArr d')" by simp
  qed
  note r1 = safe_json_list_result [of \<open>''Sure: ["a", 1]''\<close> offline_env
      "[JStr ''a'', JNum 1]" "''Sure: ''" \<open>''"a", 1''\<close> "[]"]
  note c3 = r1 [THEN conjunct2, THEN conjunct2, THEN conjunct1]
  from c3 [THEN mp, OF 6, THEN mp, OF 1, THEN mp, OF 2, THEN mp, OF 3, THEN mp, OF 5]
  have a: \<open>safe_json_list offline_env ''Sure: ["a", 1]'' = [''a'']\<close> by simp
  note r2 = safe_json_list_result [of \<open>''["a", 1]''\<close> offline_env "[JStr ''a'', JNum 1]"]
  from r2 [THEN conjunct2, THEN conjunct1, THEN mp, THEN mp, OF _ 7]
  have b: \<open>safe_json_list offline_env ''["a", 1]'' = [''a'']\<close> by simp
  note r3 = safe_json_list_result [of "[]" offline_env]
  from r3 [THEN conjunct1, THEN mp, OF refl]
  have c: "safe_json_list offline_env [] = []" .
  note r4 = safe_json_list_result [of "''no list here''" offline_env]
  have 10: "\<forall>d'. json_loads offline_env ''no list here'' \<noteq> Inr (JArr d')" by (simp add: 8)
  from r4 [THEN conjunct2, THEN conjunct2, THEN conjunct2, THEN mp, OF 10, THEN mp, OF 9]
  have d: "safe_json_list offline_env ''no list here'' = []" .
  from 1 2 3 4 5 a b c d show ?thesis by (intro conjI)
qed

text \<open>
  Claim C10 as stated fails on \<open>["a"] ["b"]\<close>: its first bracketed substring that parses
  as a JSON list is \<open>["a"]\<close>, which the words of the claim turn into the result \<open>a\<close>, but
  the code tries the span from the first opening to the last closing bracket only, which
  is the whole text and does not parse, and returns the empty list.
\<close>

theorem safe_json_list_result_counterexample:
  \<open>safe_json_list offline_env ''["a"] ["b"]'' = [] \<and>
   claimed_safe_json_list offline_env ''["a"] ["b"]'' = [''a''] \<and>
   safe_json_list offline_env ''["a"] ["b"]'' \<noteq> claimed_safe_json_list offline_env ''["a"] ["b"]''\<close>
  by code_simp

end
